theory Spec2Isabelle
  imports Complex_Main "HOL-Library.Word"
begin

unbundle bit_operations_syntax

section \<open>Data model (src/types/index.ts)\<close>

text \<open>
  A \<open>Uint8Array\<close> is a list of 8-bit words.  JavaScript numbers that the code only uses
  as integers (version, type, ttl, timestamp, sizes) are \<open>int\<close> or \<open>nat\<close>; storing one
  into a \<open>Uint8Array\<close> keeps its low eight bits, which is what \<open>word_of_int\<close> does.
\<close>

type_synonym byte = "8 word"

record packet_flags =
  hasRecipient :: bool
  hasSignature :: bool
  isCompressed :: bool
  isBSVRelated :: bool

record packet =
  version :: int
  msgType :: int
  senderID :: "byte list"
  recipientID :: "byte list option"
  timestamp :: int
  payload :: "byte list"
  signature :: "byte list option"
  ttl :: int
  flags :: packet_flags

text \<open>
  \<open>PROTOCOL_CONSTANTS\<close> and the members of \<open>MessageType\<close> the engine dispatches on.
  \<open>HEADER_SIZE\<close> is 13 in the source, while the fields in front of the senderID
  (version, type, ttl, eight timestamp bytes, flags, two length bytes) take 14 bytes.
\<close>

definition VERSION :: int where "VERSION = 2"
definition HEADER_SIZE :: nat where "HEADER_SIZE = 13"
definition SENDER_ID_SIZE :: nat where "SENDER_ID_SIZE = 8"
definition RECIPIENT_ID_SIZE :: nat where "RECIPIENT_ID_SIZE = 8"
definition SIGNATURE_SIZE :: nat where "SIGNATURE_SIZE = 64"
definition MAX_TTL :: int where "MAX_TTL = 7"
definition MAX_PAYLOAD_SIZE :: nat where "MAX_PAYLOAD_SIZE = 4096"


section \<open>BinaryProtocol.validate and BinaryProtocol.decrementTTL\<close>

text \<open>
  \<open>validate\<close> reads the clock (\<open>Date.now()\<close>); the model takes the reading as its first
  argument.  The checks are the source's, in the source's order, each returning early.
\<close>

definition validate :: "int \<Rightarrow> packet \<Rightarrow> bool" where
  "validate now p =
     (if version p \<noteq> VERSION then False
      else if ttl p > MAX_TTL \<or> ttl p < 0 then False
      else if length (senderID p) = 0 \<or> length (senderID p) > SENDER_ID_SIZE then False
      else if (case recipientID p of None \<Rightarrow> False | Some r \<Rightarrow> length r > RECIPIENT_ID_SIZE)
        then False
      else if length (payload p) > MAX_PAYLOAD_SIZE then False
      else if (case signature p of None \<Rightarrow> False | Some s \<Rightarrow> length s \<noteq> SIGNATURE_SIZE)
        then False
      else if timestamp p > now + 300000 then False
      else True)"

definition decrementTTL :: "packet \<Rightarrow> packet option" where
  "decrementTTL p = (if ttl p \<le> 0 then None else Some (p\<lparr>ttl := ttl p - 1\<rparr>))"

text \<open>
  Applying \<open>decrementTTL\<close> again and again, collecting every packet it returns until it
  returns nothing.  The recursion ends because each returned packet has a smaller,
  non-negative ttl.
\<close>

function decrementAll :: "packet \<Rightarrow> packet list" where
  "decrementAll p = (case decrementTTL p of None \<Rightarrow> [] | Some q \<Rightarrow> q # decrementAll q)"
  by pat_completeness auto
termination
  by (relation "measure (\<lambda>p. nat (ttl p))") (auto simp: decrementTTL_def split: if_splits)

declare decrementAll.simps [simp del]

section \<open>CompressionUtil (src/utils/CompressionUtil.ts)\<close>

text \<open>
  \<open>calculateEntropy\<close> computes in double precision; the model computes the same sum over
  the reals.  \<open>freq[i]\<close> is the number of occurrences of the byte value \<open>i\<close>.
\<close>

definition COMPRESSION_THRESHOLD :: nat where "COMPRESSION_THRESHOLD = 128"

definition entropyStep :: "byte list \<Rightarrow> real \<Rightarrow> nat \<Rightarrow> real" where
  "entropyStep data entropy i =
     (if count_list data (of_nat i) > 0
      then entropy - (real (count_list data (of_nat i)) / real (length data))
                     * log 2 (real (count_list data (of_nat i)) / real (length data))
      else entropy)"

definition calculateEntropy :: "byte list \<Rightarrow> real" where
  "calculateEntropy data =
     (if length data = 0 then 0 else foldl (entropyStep data) 0 [0..<256])"

definition shouldCompress :: "byte list \<Rightarrow> bool" where
  "shouldCompress data =
     (if length data < COMPRESSION_THRESHOLD then False
      else calculateEntropy data < 7.5)"

text \<open>
  The body of the \<open>for\<close> loop of \<open>compress\<close>, over the bytes still to read.  \<open>lastByte\<close>
  starts at -1 and \<open>count\<close> at 0; what the loop pushes onto \<open>compressed\<close> is returned in
  order, followed by the final run written after the loop.
\<close>

fun compressLoop :: "byte list \<Rightarrow> int \<Rightarrow> nat \<Rightarrow> byte list" where
  "compressLoop [] lastByte count =
     (if count > 0 then [0xFF, word_of_int lastByte, of_nat count] else [])"
| "compressLoop (currentByte # rest) lastByte count =
     (if uint currentByte = lastByte \<and> count < 255
      then compressLoop rest lastByte (count + 1)
      else (if count > 0 then [0xFF, word_of_int lastByte, of_nat count] else [])
         @ (if currentByte \<noteq> 0xFF then [currentByte] else [0xFF, 0xFF, 1])
         @ compressLoop rest (uint currentByte) 1)"

text \<open>
  \<open>result.length >= data.length * MIN_COMPRESSION_RATIO\<close> with the ratio 0.9, over the
  reals.
\<close>

definition compress :: "byte list \<Rightarrow> byte list option" where
  "compress data =
     (if \<not> shouldCompress data then None
      else if real (length (compressLoop data (-1) 0)) \<ge> real (length data) * 0.9 then None
      else Some (compressLoop data (-1) 0))"

text \<open>
  The \<open>while\<close> loop of \<open>decompress\<close>: the first argument is \<open>compressedData\<close> from
  index \<open>i\<close> on, the second is how many bytes are still missing up to \<open>originalSize\<close>.
  An escape needs two more bytes after it (\<open>i + 2 < compressedData.length\<close>); a run stops
  early once \<open>originalSize\<close> bytes are out.
\<close>

fun decompressLoop :: "byte list \<Rightarrow> nat \<Rightarrow> byte list" where
  "decompressLoop (b # v # c # rest) r =
     (if r = 0 then []
      else if b = 0xFF
        then replicate (min (unat c) r) v @ decompressLoop rest (r - min (unat c) r)
      else b # decompressLoop (v # c # rest) (r - 1))"
| "decompressLoop (b # rest) r = (if r = 0 then [] else b # decompressLoop rest (r - 1))"
| "decompressLoop [] r = []"

text \<open>Nothing inside the \<open>try\<close> block of \<open>decompress\<close> throws, so it never returns null.\<close>

definition decompress :: "byte list \<Rightarrow> nat \<Rightarrow> byte list option" where
  "decompress compressedData originalSize = Some (decompressLoop compressedData originalSize)"

section \<open>BinaryProtocol.encode and BinaryProtocol.decode\<close>

text \<open>The opening block of \<open>encode\<close>: the compressed payload, when compression is used.\<close>

definition compressPayload :: "byte list \<Rightarrow> byte list option" where
  "compressPayload pl =
     (if shouldCompress pl
      then (case compress pl of
              None \<Rightarrow> None
            | Some c \<Rightarrow> if length c < length pl then Some c else None)
      else None)"

text \<open>
  \<open>(timestamp >> BigInt(i * 8)) & BigInt(0xFF)\<close> for i from 7 down to 0.  The bit
  operations of \<open>int\<close> are those of \<open>BigInt\<close> (two's complement, unbounded).
\<close>

definition timestampBytes :: "int \<Rightarrow> byte list" where
  "timestampBytes ts = map (\<lambda>i. word_of_int (drop_bit (i * 8) ts AND 0xFF)) (rev [0..<8])"

text \<open>\<open>bytes.slice(0, n)\<close> followed by the zero padding up to n bytes.\<close>

definition fixedWidth :: "nat \<Rightarrow> byte list \<Rightarrow> byte list" where
  "fixedWidth n bs = take n bs @ (if length (take n bs) < n
                                  then replicate (n - length (take n bs)) 0 else [])"

definition flagsByte :: "packet \<Rightarrow> bool \<Rightarrow> byte" where
  "flagsByte p compressed =
     (if recipientID p \<noteq> None then 0x01 else 0) OR
     (if signature p \<noteq> None then 0x02 else 0) OR
     (if compressed then 0x04 else 0) OR
     (if isBSVRelated (flags p) then 0x08 else 0)"

text \<open>
  \<open>encode\<close>.  With integral timestamps nothing inside its \<open>try\<close> block throws
  (\<open>BigInt\<close> throws on a non-integral number only), so the result is never null.
\<close>

definition encode :: "packet \<Rightarrow> byte list option" where
  "encode p =
     (let compressed = compressPayload (payload p);
          isCompressed = (compressed \<noteq> None);
          pl = (case compressed of None \<Rightarrow> payload p | Some c \<Rightarrow> c);
          originalPayloadSize = length (payload p);
          payloadLength = length pl + (if isCompressed then 2 else 0)
      in Some
        ([word_of_int (version p), word_of_int (msgType p), word_of_int (ttl p)]
         @ timestampBytes (timestamp p)
         @ [flagsByte p isCompressed]
         @ [of_nat (drop_bit 8 payloadLength AND 0xFF), of_nat (payloadLength AND 0xFF)]
         @ fixedWidth SENDER_ID_SIZE (senderID p)
         @ (case recipientID p of None \<Rightarrow> [] | Some r \<Rightarrow> fixedWidth RECIPIENT_ID_SIZE r)
         @ pl
         @ (if isCompressed
            then [of_nat (drop_bit 8 originalPayloadSize AND 0xFF),
                  of_nat (originalPayloadSize AND 0xFF)]
            else [])
         @ (case signature p of None \<Rightarrow> [] | Some s \<Rightarrow> fixedWidth SIGNATURE_SIZE s)))"

text \<open>
  Reading \<open>data[i]\<close> inside a bit operation: past the end JavaScript yields
  \<open>undefined\<close>, which \<open><<\<close> and \<open>|\<close> treat as 0.  \<open>slice\<close> clamps to the array.
\<close>

definition byteAt :: "byte list \<Rightarrow> nat \<Rightarrow> nat" where
  "byteAt data i = (if i < length data then unat (data ! i) else 0)"

definition slice :: "byte list \<Rightarrow> nat \<Rightarrow> nat \<Rightarrow> byte list" where
  "slice data start end = take (end - start) (drop start data)"

text \<open>
  \<open>trimNullBytes\<close>: \<open>trimLoop data n\<close> is \<open>lastNonNull + 1\<close> when the \<open>while\<close> loop
  is entered with \<open>lastNonNull = n - 1\<close>.
\<close>

fun trimLoop :: "byte list \<Rightarrow> nat \<Rightarrow> nat" where
  "trimLoop data 0 = 0"
| "trimLoop data (Suc k) = (if data ! k = 0 then trimLoop data k else Suc k)"

definition trimNullBytes :: "byte list \<Rightarrow> byte list" where
  "trimNullBytes data = slice data 0 (trimLoop data (length data))"

text \<open>The fields \<open>decode\<close> reads from the 14 leading bytes.\<close>

definition wireFlags :: "byte list \<Rightarrow> nat" where
  "wireFlags data = byteAt data 11"

definition wireHasRecipient :: "byte list \<Rightarrow> bool" where
  "wireHasRecipient data = (wireFlags data AND 0x01 \<noteq> 0)"

definition wireHasSignature :: "byte list \<Rightarrow> bool" where
  "wireHasSignature data = (wireFlags data AND 0x02 \<noteq> 0)"

definition wireIsCompressed :: "byte list \<Rightarrow> bool" where
  "wireIsCompressed data = (wireFlags data AND 0x04 \<noteq> 0)"

definition wireIsBSVRelated :: "byte list \<Rightarrow> bool" where
  "wireIsBSVRelated data = (wireFlags data AND 0x08 \<noteq> 0)"

definition wirePayloadLength :: "byte list \<Rightarrow> nat" where
  "wirePayloadLength data = push_bit 8 (byteAt data 12) OR byteAt data 13"

definition wireTimestamp :: "byte list \<Rightarrow> int" where
  "wireTimestamp data = foldl (\<lambda>t i. push_bit 8 t OR int (byteAt data i)) 0 [3..<11]"

definition expectedLength :: "byte list \<Rightarrow> nat" where
  "expectedLength data =
     SENDER_ID_SIZE + (if wireHasRecipient data then RECIPIENT_ID_SIZE else 0)
     + wirePayloadLength data + (if wireHasSignature data then SIGNATURE_SIZE else 0)"

text \<open>
  \<open>decode\<close>.  After the payload length has been read \<open>offset\<close> is 14; \<open>offA\<close> is the
  offset after the ids, \<open>offB\<close> after the payload section.  In the compressed branch
  \<open>payloadLength - 2\<close> may be negative, which moves \<open>offset\<close> back by at most 2; as
  \<open>offA\<close> is at least 22 the natural-number arithmetic below is exact, and a \<open>slice\<close>
  whose end lies before its start is empty.  \<open>Number(timestamp)\<close> is exact below 2^53.
\<close>

definition decode :: "byte list \<Rightarrow> packet option" where
  "decode data =
     (if length data < HEADER_SIZE then None
      else if length data < HEADER_SIZE + expectedLength data then None
      else
        let payloadLength = wirePayloadLength data;
            sender = slice data 14 (14 + SENDER_ID_SIZE);
            offR = 14 + SENDER_ID_SIZE;
            recipient = (if wireHasRecipient data
                         then Some (slice data offR (offR + RECIPIENT_ID_SIZE)) else None);
            offA = (if wireHasRecipient data then offR + RECIPIENT_ID_SIZE else offR);
            offB = offA + payloadLength;
            payloadResult =
              (if wireIsCompressed data
               then decompress (slice data offA (offA + payloadLength - 2))
                      (push_bit 8 (byteAt data (offA + payloadLength - 2))
                         OR byteAt data (offA + payloadLength - 2 + 1))
               else Some (slice data offA (offA + payloadLength)));
            sig = (if wireHasSignature data
                   then Some (slice data offB (offB + SIGNATURE_SIZE)) else None)
        in case payloadResult of
             None \<Rightarrow> None
           | Some pl \<Rightarrow>
               Some \<lparr> version = int (byteAt data 0),
                      msgType = int (byteAt data 1),
                      senderID = trimNullBytes sender,
                      recipientID = map_option trimNullBytes recipient,
                      timestamp = wireTimestamp data,
                      payload = pl,
                      signature = sig,
                      ttl = int (byteAt data 2),
                      flags = \<lparr> hasRecipient = wireHasRecipient data,
                                hasSignature = wireHasSignature data,
                                isCompressed = wireIsCompressed data,
                                isBSVRelated = wireIsBSVRelated data \<rparr> \<rparr>)"

section \<open>MessagePadding\<close>

text \<open>
  \<open>getRandomBytes\<close> draws from the platform's random source; the model takes the source
  as a function giving the i-th byte drawn.
\<close>

definition MAX_PADDING :: nat where "MAX_PADDING = 255"

definition getRandomBytes :: "(nat \<Rightarrow> byte) \<Rightarrow> nat \<Rightarrow> byte list" where
  "getRandomBytes rng len = map rng [0..<len]"

text \<open>
  \<open>pad\<close> allocates \<open>targetSize\<close> bytes, copies the data to the front, the random bytes
  after it and the padding length into the last byte.
\<close>

definition pad :: "(nat \<Rightarrow> byte) \<Rightarrow> byte list \<Rightarrow> nat \<Rightarrow> byte list" where
  "pad rng data targetSize =
     (if length data \<ge> targetSize then data
      else let paddingNeeded = targetSize - length data
           in if paddingNeeded > MAX_PADDING then data
              else data
                 @ (if paddingNeeded > 1 then getRandomBytes rng (paddingNeeded - 1) else [])
                 @ [of_nat paddingNeeded])"

text \<open>The loop of \<open>isValidPKCS7Padding\<close> looks at the last \<open>paddingLength\<close> bytes.\<close>

definition isValidPKCS7Padding :: "byte list \<Rightarrow> nat \<Rightarrow> bool" where
  "isValidPKCS7Padding data paddingLength =
     (if paddingLength \<le> 0 \<or> paddingLength > length data then False
      else list_all (\<lambda>b. unat b = paddingLength) (drop (length data - paddingLength) data))"

definition unpad :: "byte list \<Rightarrow> byte list" where
  "unpad data =
     (if length data = 0 then data
      else let paddingLength = unat (data ! (length data - 1))
           in if paddingLength \<le> 0 \<or> paddingLength > length data
                 \<or> paddingLength > MAX_PADDING then data
              else if isValidPKCS7Padding data paddingLength
                then slice data 0 (length data - paddingLength)
              else data)"

section \<open>BluetoothMeshService: the relay engine\<close>


text \<open>
  Of a \<open>BitchatPeer\<close> the engine reads \<open>isConnected\<close> and writes \<open>lastSeen\<close>.  The
  \<open>Map\<close> of connected peers is an association list in insertion order.
\<close>

record peer =
  lastSeen :: int
  isConnected :: bool

text \<open>
  The message \<open>handleMessage\<close> hands to the delegate, without its two constant fields;
  \<open>content\<close> holds the payload bytes that \<open>TextDecoder\<close> decodes.
\<close>

record message =
  messageId :: int
  senderHex :: string
  content :: "byte list"
  messageTimestamp :: int
  isPrivate :: bool

text \<open>
  What the engine does to the outside: a delegate callback, a write to a peer (or the
  error \<open>sendDataToPeer\<close> throws for a peer that is not connected), a disconnect.
\<close>

datatype effect =
    MessageReceived message
  | Sent string "byte list"
  | SendRejected string
  | Disconnected string

datatype timerTask = PeerCleanup | CoverTraffic | DeviceDiscovery

datatype batteryMode = aggressive | balanced | performance | maximum

datatype engineError = NotInitialized

text \<open>
  The engine, with the fields that the operations below read or write.  \<open>timers\<close> are
  the timers the runtime holds (set and not cleared), each with its handle; \<open>nextTimer\<close>
  is the next handle.  \<open>delegate\<close> says whether a delegate is installed.  \<open>effects\<close>
  is the trace of what the engine did, oldest first.
\<close>

record engine =
  delegate :: bool
  isInitialized :: bool
  isScanning :: bool
  isAdvertising :: bool
  connectedPeers :: "(string \<times> peer) list"
  processedMessages :: "int set"
  scanDutyCycleTimer :: "nat option"
  peerCleanupTimer :: "nat option"
  coverTrafficTimer :: "nat option"
  scanInterval :: nat
  scanPause :: nat
  mode :: batteryMode
  maxConnections :: nat
  timers :: "(nat \<times> timerTask) list"
  nextTimer :: nat
  effects :: "effect list"

text \<open>The field initialisers of the class.\<close>

definition newEngine :: engine where
  "newEngine =
     \<lparr> delegate = False, isInitialized = False, isScanning = False, isAdvertising = False,
       connectedPeers = [], processedMessages = {},
       scanDutyCycleTimer = None, peerCleanupTimer = None, coverTrafficTimer = None,
       scanInterval = 10000, scanPause = 2000, mode = balanced, maxConnections = 8,
       timers = [], nextTimer = 1, effects = [] \<rparr>"

definition setTimer :: "timerTask \<Rightarrow> engine \<Rightarrow> nat \<times> engine" where
  "setTimer task st =
     (nextTimer st,
      st\<lparr>timers := timers st @ [(nextTimer st, task)], nextTimer := nextTimer st + 1\<rparr>)"

definition clearTimer :: "nat \<Rightarrow> engine \<Rightarrow> engine" where
  "clearTimer h st = st\<lparr>timers := filter (\<lambda>(k, _). k \<noteq> h) (timers st)\<rparr>"

definition updateScanParameters :: "engine \<Rightarrow> engine" where
  "updateScanParameters st =
     (case mode st of
        aggressive \<Rightarrow> st\<lparr>scanInterval := 5000, scanPause := 5000, maxConnections := 4\<rparr>
      | balanced \<Rightarrow> st\<lparr>scanInterval := 10000, scanPause := 2000, maxConnections := 8\<rparr>
      | performance \<Rightarrow> st\<lparr>scanInterval := 15000, scanPause := 1000, maxConnections := 12\<rparr>
      | maximum \<Rightarrow> st\<lparr>scanInterval := 20000, scanPause := 500, maxConnections := 16\<rparr>)"

definition startPeriodicTasks :: "engine \<Rightarrow> engine" where
  "startPeriodicTasks st =
     (let (h1, st1) = setTimer PeerCleanup st;
          st2 = st1\<lparr>peerCleanupTimer := Some h1\<rparr>;
          (h2, st3) = setTimer CoverTraffic st2;
          st4 = st3\<lparr>coverTrafficTimer := Some h2\<rparr>
      in updateScanParameters st4)"

text \<open>
  \<open>initialize\<close> installs the delegate, starts the periodic tasks and marks the engine
  initialised; the BLE and key-pair steps in between are taken to succeed and do not touch
  the engine's fields.
\<close>

definition initialize :: "engine \<Rightarrow> engine" where
  "initialize st =
     (if isInitialized st then st
      else (startPeriodicTasks (st\<lparr>delegate := True\<rparr>))\<lparr>isInitialized := True\<rparr>)"

definition startAdvertising :: "engine \<Rightarrow> engine" where
  "startAdvertising st = (if isAdvertising st then st else st\<lparr>isAdvertising := True\<rparr>)"

text \<open>\<open>startScanning\<close> arms the one-second timeout of \<open>simulateDeviceDiscovery\<close>.\<close>

definition startScanning :: "engine \<Rightarrow> engine" where
  "startScanning st =
     (if isScanning st then st
      else snd (setTimer DeviceDiscovery (st\<lparr>isScanning := True\<rparr>)))"

definition startServices :: "engine \<Rightarrow> engineError + engine" where
  "startServices st =
     (if \<not> isInitialized st then Inl NotInitialized
      else Inr (startScanning (startAdvertising st)))"

definition stopScanning :: "engine \<Rightarrow> engine" where
  "stopScanning st =
     (if \<not> isScanning st then st
      else let st1 = st\<lparr>isScanning := False\<rparr>
           in case scanDutyCycleTimer st1 of
                None \<Rightarrow> st1
              | Some h \<Rightarrow> (clearTimer h st1)\<lparr>scanDutyCycleTimer := None\<rparr>)"

definition stopAdvertising :: "engine \<Rightarrow> engine" where
  "stopAdvertising st = (if \<not> isAdvertising st then st else st\<lparr>isAdvertising := False\<rparr>)"

definition disconnectFromDevice :: "string \<Rightarrow> engine \<Rightarrow> engine" where
  "disconnectFromDevice deviceId st = st\<lparr>effects := effects st @ [Disconnected deviceId]\<rparr>"

definition disconnectAllPeers :: "engine \<Rightarrow> engine" where
  "disconnectAllPeers st =
     (foldl (\<lambda>s peerId. disconnectFromDevice peerId s) st (map fst (connectedPeers st)))
       \<lparr>connectedPeers := []\<rparr>"

definition stopServices :: "engine \<Rightarrow> engine" where
  "stopServices st = disconnectAllPeers (stopAdvertising (stopScanning st))"











section \<open>Sample data\<close>

text \<open>A sample packet, built the way \<open>simulateIncomingMessage\<close> builds one.\<close>

definition samplePacket :: packet where
  "samplePacket =
     \<lparr> version = 2, msgType = 4, senderID = [0x70, 0x65, 0x65, 0x72],
       recipientID = None, timestamp = 1700000000000,
       payload = [0x48, 0x65, 0x6C, 0x6C, 0x6F], signature = None, ttl = 3,
       flags = \<lparr> hasRecipient = False, hasSignature = False,
                 isCompressed = False, isBSVRelated = False \<rparr> \<rparr>"

text \<open>The 27 bytes \<open>encode\<close> produces for \<open>samplePacket\<close>.\<close>

definition sampleWire :: "byte list" where
  "sampleWire = [0x02, 0x04, 0x03,
                 0x00, 0x00, 0x01, 0x8B, 0xCF, 0xE5, 0x68, 0x00,
                 0x00, 0x00, 0x05,
                 0x70, 0x65, 0x65, 0x72, 0x00, 0x00, 0x00, 0x00,
                 0x48, 0x65, 0x6C, 0x6C, 0x6F]"

text \<open>
  Sample engines: \<open>startedEngine\<close> is a new engine after \<open>initialize\<close> and
  \<open>startServices\<close>; \<open>meshEngine\<close> is that engine with three peers in its table, the
  second of them not connected.  \<open>expiredWire\<close> is \<open>sampleWire\<close> with ttl 0.
\<close>

definition startedEngine :: engine where
  "startedEngine = startScanning (startAdvertising (initialize newEngine))"

definition meshEngine :: engine where
  "meshEngine = startedEngine\<lparr>connectedPeers :=
      [(''A'', \<lparr>lastSeen = 1700000000000, isConnected = True\<rparr>),
       (''B'', \<lparr>lastSeen = 1700000000000, isConnected = False\<rparr>),
       (''C'', \<lparr>lastSeen = 1700000000000, isConnected = True\<rparr>)]\<rparr>"


text \<open>
  Two compressible payloads of 200 bytes: one byte value repeated, and the same with a
  different last byte; and the sample packet carrying each.
\<close>

definition constantPayload :: "byte list" where
  "constantPayload = replicate 200 0x41"

definition skewedPayload :: "byte list" where
  "skewedPayload = replicate 199 0x41 @ [0x42]"

definition constantPacket :: packet where
  "constantPacket = samplePacket\<lparr>payload := constantPayload\<rparr>"

section \<open>Auxiliary facts about bytes and the wire layout\<close>

lemma take_trimLoop:
  "n \<le> length data \<Longrightarrow>
   take (trimLoop data n) data = rev (dropWhile (\<lambda>b. b = 0) (rev (take n data)))"
proof (induction n)
  case 0
  then show ?case by simp
next
  case (Suc k)
  then have k: "k < length data" by simp
  have t: "take (Suc k) data = take k data @ [data ! k]"
    using k by (rule take_Suc_conv_app_nth)
  show ?case
  proof (cases "data ! k = 0")
    case True
    then show ?thesis using Suc t by simp
  next
    case False
    then show ?thesis using t by simp
  qed
qed

lemma trimNullBytes_eq:
  "trimNullBytes data = rev (dropWhile (\<lambda>b. b = 0) (rev data))"
  using take_trimLoop [of "length data" data] by (simp add: trimNullBytes_def slice_def)

lemma trimNullBytes_zeros:
  "trimNullBytes (xs @ replicate k 0) = trimNullBytes xs"
proof -
  have "dropWhile (\<lambda>b. b = 0) (replicate k (0::byte) @ rev xs) = dropWhile (\<lambda>b. b = 0) (rev xs)"
    by (rule dropWhile_append2) simp
  then show ?thesis by (simp add: trimNullBytes_eq)
qed

lemma length_fixedWidth: "length (fixedWidth n bs) = n"
  by (simp add: fixedWidth_def)

lemma trimNullBytes_fixedWidth:
  "length bs \<le> n \<Longrightarrow> trimNullBytes (fixedWidth n bs) = trimNullBytes bs"
  by (simp add: fixedWidth_def trimNullBytes_zeros)

lemma and_255_int: "(k::int) AND 255 = k mod 256"
proof -
  have "(255::int) = mask 8" by (simp add: mask_eq_exp_minus_1)
  then have "k AND 255 = take_bit 8 k" by (simp only: take_bit_eq_mask)
  then show ?thesis by (simp add: take_bit_eq_mod)
qed

lemma and_255_nat: "(n::nat) AND 255 = n mod 256"
proof -
  have "(255::nat) = mask 8" by (simp add: mask_eq_exp_minus_1)
  then have "n AND 255 = take_bit 8 n" by (simp only: take_bit_eq_mask)
  then show ?thesis by (simp add: take_bit_eq_mod)
qed

lemma shift_or_int:
  assumes "0 \<le> b" and "b < 256"
  shows "push_bit 8 (t::int) OR b = t * 256 + b"
proof -
  have "take_bit 8 b = b" using assms by (simp add: take_bit_int_eq_self)
  then have "push_bit 8 t OR b = concat_bit 8 b t"
    by (simp add: concat_bit_def ac_simps)
  also have "\<dots> = take_bit 8 b + push_bit 8 t" by (rule concat_bit_eq)
  also have "\<dots> = t * 256 + b" using \<open>take_bit 8 b = b\<close> by (simp add: push_bit_eq_mult)
  finally show ?thesis .
qed

lemma shift_or_nat:
  assumes "b < 256"
  shows "push_bit 8 (a::nat) OR b = a * 256 + b"
proof -
  have "int (push_bit 8 a OR b) = push_bit 8 (int a) OR int b"
    by (simp add: of_nat_or_eq of_nat_push_bit)
  also have "\<dots> = int a * 256 + int b" using assms by (intro shift_or_int) simp_all
  also have "\<dots> = int (a * 256 + b)" by simp
  finally show ?thesis by (simp only: of_nat_eq_iff)
qed

lemma unat_byte_lt: "unat (b::byte) < 256"
  using unsigned_less [of b, where ?'a = nat] by simp

lemma payloadLength_bytes:
  assumes "n < 65536"
  shows "unat (of_nat (drop_bit 8 n AND 0xFF) :: byte) * 256 + unat (of_nat (n AND 0xFF) :: byte) = n"
proof -
  have hi: "drop_bit 8 n AND 255 = n div 256"
    using assms by (simp add: and_255_nat drop_bit_eq_div)
  have "n div 256 < 256" using assms by simp
  then have h: "unat (of_nat (n div 256) :: byte) = n div 256"
    by (simp add: unat_of_nat)
  have l: "unat (of_nat (n AND 255) :: byte) = n mod 256"
    by (simp add: and_255_nat unat_of_nat)
  show ?thesis by (simp add: hi h l)
qed

lemma be_fold:
  "foldl (\<lambda>t b. t * 256 + uint b) acc
     (map (\<lambda>i. word_of_int (drop_bit (i * 8) ts AND 0xFF) :: byte) (rev [0..<n]))
   = acc * 256 ^ n + ts mod 256 ^ n"
proof (induction n arbitrary: acc)
  case 0
  then show ?case by simp
next
  case (Suc n)
  have "(2::int) ^ (8 * n) = (2 ^ 8) ^ n" by (rule power_mult)
  then have p: "(2::int) ^ (n * 8) = 256 ^ n" by (simp add: mult.commute)
  have b: "uint (word_of_int (drop_bit (n * 8) ts AND 0xFF) :: byte) = ts div 256 ^ n mod 256"
    by (simp add: and_255_int uint_word_of_int drop_bit_eq_div p)
  have m: "ts mod (256 ^ n * 256) = 256 ^ n * (ts div 256 ^ n mod 256) + ts mod 256 ^ n"
    by (rule zmod_zmult2_eq) simp
  show ?case
    using Suc.IH [of "acc * 256 + ts div 256 ^ n mod 256"] b m
    by (simp add: algebra_simps)
qed

lemma wireTimestamp_encode:
  assumes "0 \<le> ts" and "ts < 2 ^ 64"
  shows "wireTimestamp (a # b # c # timestampBytes ts @ rest) = ts"
proof -
  have "wireTimestamp (a # b # c # timestampBytes ts @ rest)
      = foldl (\<lambda>t b. push_bit 8 t OR int (unat b)) 0 (timestampBytes ts)"
    by (simp add: wireTimestamp_def timestampBytes_def byteAt_def upt_rec)
  also have "(\<lambda>(t::int) (b::byte). push_bit 8 t OR int (unat b)) = (\<lambda>t b. t * 256 + uint b)"
  proof (intro ext)
    fix t :: int and b :: byte
    have "uint b < 256" using uint_lt2p [of b] by simp
    then show "push_bit 8 t OR int (unat b) = t * 256 + uint b"
      using shift_or_int [of "uint b" t] by simp
  qed
  also have "foldl (\<lambda>t b. t * 256 + uint b) 0 (timestampBytes ts) = ts mod 256 ^ 8"
    unfolding timestampBytes_def by (subst be_fold) simp
  also have "\<dots> = ts" using assms by simp
  finally show ?thesis .
qed

lemma flagsByte_bits:
  "(unat (flagsByte p c) AND 1 \<noteq> 0) = (recipientID p \<noteq> None)"
  "(unat (flagsByte p c) AND 2 \<noteq> 0) = (signature p \<noteq> None)"
  "(unat (flagsByte p c) AND 4 \<noteq> 0) = c"
  "(unat (flagsByte p c) AND 8 \<noteq> 0) = isBSVRelated (flags p)"
  by (cases "recipientID p"; cases "signature p"; cases c; cases "isBSVRelated (flags p)";
      simp add: flagsByte_def)+

lemma byteAt_Cons_0: "byteAt (x # xs) 0 = unat x"
  by (simp add: byteAt_def)

lemma byteAt_Cons_Suc: "byteAt (x # xs) (Suc n) = byteAt xs n"
  by (simp add: byteAt_def)

lemma byteAt_Cons_numeral: "byteAt (x # xs) (numeral k) = byteAt xs (pred_numeral k)"
  by (simp add: numeral_eq_Suc byteAt_Cons_Suc)

lemma byteAt_Cons_1: "byteAt (x # xs) 1 = byteAt xs 0"
  using byteAt_Cons_Suc [of x xs 0] by simp

lemmas byteAt_Cons = byteAt_Cons_0 byteAt_Cons_numeral byteAt_Cons_1

lemma byteAt_drop: "byteAt (drop k data) i = byteAt data (k + i)"
  by (auto simp: byteAt_def)

lemma byteAt_append: "byteAt (xs @ ys) (length xs + i) = byteAt ys i"
  by (simp add: byteAt_def nth_append)

lemma slice_drop: "slice (drop k data) a b = slice data (k + a) (k + b)"
  by (simp add: slice_def add.commute)

lemma length_timestampBytes: "length (timestampBytes ts) = 8"
  by (simp add: timestampBytes_def)

lemma header_layout:
  assumes "length tsb = 8" and "data = a # b # c # tsb @ f # hi # lo # body"
  shows "byteAt data 0 = unat a" and "byteAt data 1 = unat b" and "byteAt data 2 = unat c"
    and "byteAt data 11 = unat f" and "byteAt data 12 = unat hi" and "byteAt data 13 = unat lo"
    and "drop 14 data = body" and "length data = 14 + length body"
proof -
  from assms(1) obtain t0 t1 t2 t3 t4 t5 t6 t7 where "tsb = [t0, t1, t2, t3, t4, t5, t6, t7]"
    by (auto simp: eval_nat_numeral length_Suc_conv)
  with assms(2) have d: "data = [a, b, c, t0, t1, t2, t3, t4, t5, t6, t7, f, hi, lo] @ body"
    by simp
  show "byteAt data 0 = unat a" "byteAt data 1 = unat b" "byteAt data 2 = unat c"
    "byteAt data 11 = unat f" "byteAt data 12 = unat hi" "byteAt data 13 = unat lo"
    "drop 14 data = body" "length data = 14 + length body"
    by (simp_all add: d byteAt_Cons byteAt_Cons_Suc)
qed

lemma int_unat_byte: "int (unat (word_of_int k :: byte)) = k mod 256"
  by (simp add: uint_word_of_int)

lemma decode_encode:
  assumes ts: "0 \<le> timestamp p" "timestamp p < 2 ^ 64"
    and plen: "length (payload p) < 65534"
  shows "decode (the (encode p)) =
    Some \<lparr> version = version p mod 256,
           msgType = msgType p mod 256,
           senderID = trimNullBytes (fixedWidth 8 (senderID p)),
           recipientID = map_option (\<lambda>r. trimNullBytes (fixedWidth 8 r)) (recipientID p),
           timestamp = timestamp p,
           payload = (case compressPayload (payload p) of
                        None \<Rightarrow> payload p
                      | Some c \<Rightarrow> decompressLoop c (length (payload p))),
           signature = map_option (fixedWidth 64) (signature p),
           ttl = ttl p mod 256,
           flags = \<lparr> hasRecipient = (recipientID p \<noteq> None),
                     hasSignature = (signature p \<noteq> None),
                     isCompressed = (compressPayload (payload p) \<noteq> None),
                     isBSVRelated = isBSVRelated (flags p) \<rparr> \<rparr>"
proof -
  define comp where "comp = (compressPayload (payload p) \<noteq> None)"
  define pl where "pl = (case compressPayload (payload p) of None \<Rightarrow> payload p | Some c \<Rightarrow> c)"
  define n where "n = length (payload p)"
  define tail :: "byte list" where
    "tail = (if comp then [of_nat (drop_bit 8 n AND 0xFF), of_nat (n AND 0xFF)] else [])"
  define k where "k = length pl + (if comp then 2 else 0)"
  define S where "S = fixedWidth SENDER_ID_SIZE (senderID p)"
  define R where
    "R = (case recipientID p of None \<Rightarrow> [] | Some r \<Rightarrow> fixedWidth RECIPIENT_ID_SIZE r)"
  define G where
    "G = (case signature p of None \<Rightarrow> [] | Some s \<Rightarrow> fixedWidth SIGNATURE_SIZE s)"
  define body where "body = S @ R @ pl @ tail @ G"
  define data where "data = the (encode p)"
  have enc: "data = word_of_int (version p) # word_of_int (msgType p) # word_of_int (ttl p)
        # timestampBytes (timestamp p)
        @ flagsByte p comp # of_nat (drop_bit 8 k AND 0xFF) # of_nat (k AND 0xFF) # body"
    by (simp add: data_def encode_def Let_def comp_def pl_def n_def tail_def k_def S_def R_def
        G_def body_def)
  note hl = header_layout [OF length_timestampBytes enc]
  have lenpl: "length pl \<le> n"
    by (auto simp: pl_def n_def compressPayload_def split: option.splits if_splits)
  have k_lt: "k < 65536" using lenpl plen by (simp add: k_def n_def)
  have n_lt: "n < 65536" using plen by (simp add: n_def)
  have lenS: "length S = 8" by (simp add: S_def length_fixedWidth SENDER_ID_SIZE_def)
  have lenR: "length R = (if recipientID p \<noteq> None then 8 else 0)"
    by (simp add: R_def length_fixedWidth RECIPIENT_ID_SIZE_def split: option.splits)
  have lenG: "length G = (if signature p \<noteq> None then 64 else 0)"
    by (simp add: G_def length_fixedWidth SIGNATURE_SIZE_def split: option.splits)
  have lentail: "length tail = (if comp then 2 else 0)" by (simp add: tail_def)
  have wts: "wireTimestamp data = timestamp p"
    unfolding enc using ts by (rule wireTimestamp_encode)
  have wf: "wireFlags data = unat (flagsByte p comp)" by (simp add: wireFlags_def hl)
  have wr: "wireHasRecipient data = (recipientID p \<noteq> None)"
    by (simp only: wireHasRecipient_def wf flagsByte_bits)
  have ws: "wireHasSignature data = (signature p \<noteq> None)"
    by (simp only: wireHasSignature_def wf flagsByte_bits)
  have wc: "wireIsCompressed data = comp"
    by (simp only: wireIsCompressed_def wf flagsByte_bits)
  have wb: "wireIsBSVRelated data = isBSVRelated (flags p)"
    by (simp only: wireIsBSVRelated_def wf flagsByte_bits)
  have wl: "wirePayloadLength data = k"
    using payloadLength_bytes [OF k_lt]
    by (simp add: wirePayloadLength_def hl shift_or_nat unat_byte_lt)
  have el: "expectedLength data = 8 + length R + k + length G"
    by (simp add: expectedLength_def wr ws wl lenR lenG SENDER_ID_SIZE_def
        RECIPIENT_ID_SIZE_def SIGNATURE_SIZE_def)
  have ld: "length data = 14 + (8 + length R + k + length G)"
    by (simp add: hl body_def lenS k_def lentail)
  have sl: "slice data (14 + a) (14 + b) = slice body a b" for a b
    using slice_drop [of 14 data a b] by (simp add: hl)
  have ba: "byteAt data (14 + i) = byteAt body i" for i
    using byteAt_drop [of 14 data i] by (simp add: hl)
  have sS: "slice data 14 (14 + 8) = S"
    using sl [of 0 8] by (simp add: slice_def body_def lenS)
  have sR: "slice data (14 + 8) (14 + 8 + 8) = R" if "recipientID p \<noteq> None"
    using sl [of 8 16] that by (simp add: slice_def body_def lenS lenR)
  define offA where "offA = (if recipientID p \<noteq> None then 14 + 8 + 8 else 14 + (8::nat))"
  have offA: "offA = 14 + (8 + length R)" by (simp add: offA_def lenR)
  have dA: "drop (8 + length R) body = pl @ tail @ G"
    by (simp add: body_def lenS)
  have sP: "slice data offA (offA + k) = pl @ tail"
    unfolding offA using sl [of "8 + length R" "8 + length R + k"]
    by (simp add: slice_def dA k_def lentail add.assoc)
  have sC: "slice data offA (offA + k - 2) = pl" if comp
  proof -
    have "offA + k - 2 = 14 + (8 + length R + length pl)" using that by (simp add: offA k_def)
    then show ?thesis
      unfolding offA using sl [of "8 + length R" "8 + length R + length pl"]
      by (simp add: slice_def dA add.assoc)
  qed
  have oS: "push_bit 8 (byteAt data (offA + k - 2)) OR byteAt data (offA + k - 2 + 1) = n" if comp
  proof -
    define pre where "pre = S @ R @ pl"
    have body2: "body = pre @ tail @ G" by (simp add: body_def pre_def)
    have lpre: "length pre = 8 + length R + length pl" by (simp add: pre_def lenS)
    have e: "offA + k - 2 = 14 + length pre" using that by (simp add: offA k_def lpre)
    have t: "tail @ G = of_nat (drop_bit 8 n AND 0xFF) # of_nat (n AND 0xFF) # G"
      using that by (simp add: tail_def)
    have "byteAt data (14 + length pre) = byteAt body (length pre)" by (rule ba)
    also have "\<dots> = byteAt (tail @ G) 0"
      unfolding body2 using byteAt_append [of pre "tail @ G" 0] by simp
    also have "\<dots> = unat (of_nat (drop_bit 8 n AND 0xFF) :: byte)"
      unfolding t by (rule byteAt_Cons_0)
    finally have b0: "byteAt data (offA + k - 2) = unat (of_nat (drop_bit 8 n AND 0xFF) :: byte)"
      by (simp only: e)
    have "byteAt data (14 + (length pre + 1)) = byteAt body (length pre + 1)" by (rule ba)
    also have "\<dots> = byteAt (tail @ G) 1"
      unfolding body2 by (rule byteAt_append)
    also have "\<dots> = unat (of_nat (n AND 0xFF) :: byte)"
      unfolding t by (simp add: byteAt_Cons byteAt_Cons_Suc)
    finally have b1: "byteAt data (offA + k - 2 + 1) = unat (of_nat (n AND 0xFF) :: byte)"
      by (simp only: e add.assoc)
    show ?thesis
      unfolding b0 b1 using payloadLength_bytes [OF n_lt]
      by (simp add: shift_or_nat unat_byte_lt)
  qed
  have sG: "slice data (offA + k) (offA + k + 64) = G" if "signature p \<noteq> None"
    unfolding offA using sl [of "8 + length R + k" "8 + length R + k + 64"] that
    by (simp add: slice_def body_def lenS k_def lentail lenG add.assoc)
  have payC: "decompress (slice data offA (offA + k - 2))
                (push_bit 8 (byteAt data (offA + k - 2)) OR byteAt data (offA + k - 2 + 1))
           = Some (case compressPayload (payload p) of None \<Rightarrow> payload p
                   | Some c \<Rightarrow> decompressLoop c (length (payload p)))" if comp
    using that sC oS by (auto simp: decompress_def comp_def pl_def n_def)
  have payU: "slice data offA (offA + k)
           = (case compressPayload (payload p) of None \<Rightarrow> payload p
                   | Some c \<Rightarrow> decompressLoop c (length (payload p)))" if "\<not> comp"
    using that sP by (auto simp: comp_def pl_def tail_def)
  have hdr: "int (byteAt data 0) = version p mod 256" "int (byteAt data 1) = msgType p mod 256"
    "int (byteAt data 2) = ttl p mod 256"
    by (simp_all only: hl int_unat_byte)
  have "decode data = Some \<lparr> version = version p mod 256,
           msgType = msgType p mod 256,
           senderID = trimNullBytes S,
           recipientID = (if recipientID p \<noteq> None then Some (trimNullBytes R) else None),
           timestamp = timestamp p,
           payload = (case compressPayload (payload p) of
                        None \<Rightarrow> payload p
                      | Some c \<Rightarrow> decompressLoop c (length (payload p))),
           signature = (if signature p \<noteq> None then Some G else None),
           ttl = ttl p mod 256,
           flags = \<lparr> hasRecipient = (recipientID p \<noteq> None),
                     hasSignature = (signature p \<noteq> None),
                     isCompressed = comp,
                     isBSVRelated = isBSVRelated (flags p) \<rparr> \<rparr>"
  proof (cases "recipientID p")
    case None
    then have o: "offA = 22" by (simp add: offA_def)
    show ?thesis
      using payC payU sS sG hdr None unfolding o
      by (cases "signature p";
          simp add: decode_def Let_def HEADER_SIZE_def SENDER_ID_SIZE_def RECIPIENT_ID_SIZE_def
            SIGNATURE_SIZE_def wr ws wc wb wl wts el ld)
  next
    case (Some r)
    then have o: "offA = 30" by (simp add: offA_def)
    show ?thesis
      using payC payU sS sR sG hdr Some unfolding o
      by (cases "signature p";
          simp add: decode_def Let_def HEADER_SIZE_def SENDER_ID_SIZE_def RECIPIENT_ID_SIZE_def
            SIGNATURE_SIZE_def wr ws wc wb wl wts el ld)
  qed
  then show ?thesis
    by (cases "recipientID p"; cases "signature p";
        simp add: data_def S_def R_def G_def comp_def SENDER_ID_SIZE_def RECIPIENT_ID_SIZE_def
          SIGNATURE_SIZE_def)
qed


section \<open>Facts about the compression codec\<close>

lemma count_list_replicate: "count_list (replicate n b) x = (if x = b then n else 0)"
  by (induction n) auto

lemma entropyStep_eq:
  "entropyStep data e i = e - (if count_list data (of_nat i) > 0
      then (real (count_list data (of_nat i)) / real (length data))
           * log 2 (real (count_list data (of_nat i)) / real (length data)) else 0)"
  by (simp add: entropyStep_def)

lemma foldl_entropyStep:
  "foldl (entropyStep data) e xs = e - sum_list (map (\<lambda>i. entropyStep data 0 i * (-1)) xs)"
  by (induction xs arbitrary: e) (simp_all add: entropyStep_eq)

lemma entropy_replicate: "calculateEntropy (replicate n b) = 0"
proof (cases "n = 0")
  case True
  then show ?thesis by (simp add: calculateEntropy_def)
next
  case False
  have "entropyStep (replicate n b) 0 i = 0" for i
    using False by (simp add: entropyStep_def count_list_replicate)
  then show ?thesis
    by (simp add: calculateEntropy_def foldl_entropyStep)
qed

lemma compressLoop_run:
  "0 < c \<Longrightarrow> c + n \<le> 255 \<Longrightarrow>
   compressLoop (replicate n b) (uint b) c = [0xFF, b, of_nat (c + n)]"
  by (induction n arbitrary: c) simp_all

lemma compressLoop_run_next:
  "0 < c \<Longrightarrow> c + n \<le> 255 \<Longrightarrow> y \<noteq> b \<Longrightarrow>
   compressLoop (replicate n b @ y # ys) (uint b) c =
     [0xFF, b, of_nat (c + n)] @ (if y \<noteq> 0xFF then [y] else [0xFF, 0xFF, 1])
       @ compressLoop ys (uint y) 1"
  by (induction n arbitrary: c) (simp_all add: word_uint_eq_iff [symmetric])

lemma replicate_200: "replicate 200 x = x # replicate 199 x"
  by (simp add: numeral_eq_Suc)

lemma compressLoop_200: "compressLoop (replicate 200 0x41) (-1) 0 = [0x41, 0xFF, 0x41, 200]"
  using compressLoop_run [of 1 199 "0x41"] by (simp add: replicate_200)

lemma shouldCompress_200: "shouldCompress (replicate 200 0x41)"
  by (simp add: shouldCompress_def COMPRESSION_THRESHOLD_def entropy_replicate)

lemma compress_200: "compress (replicate 200 0x41) = Some [0x41, 0xFF, 0x41, 200]"
  by (simp add: compress_def shouldCompress_200 compressLoop_200)

lemma decompress_200: "decompressLoop [0x41, 0xFF, 0x41, 200] 200 = replicate 200 0x41"
  by (simp add: replicate_200)

lemma compressLoop_199: "compressLoop (replicate 199 0x41 @ [0x42]) (-1) 0 = [0x41, 0xFF, 0x41, 199, 0x42, 0xFF, 0x42, 1]"
proof -
  have "replicate 199 (0x41::byte) = 0x41 # replicate 198 0x41" by (simp add: numeral_eq_Suc)
  then show ?thesis
    using compressLoop_run_next [of 1 198 "0x42" "0x41" "[]"] by simp
qed

lemma decompress_199: "decompressLoop [0x41, 0xFF, 0x41, 199, 0x42, 0xFF, 0x42, 1] 200 = replicate 200 0x41"
  by (simp add: replicate_200)

lemma count_skewedPayload:
  "count_list skewedPayload x = (if x = 0x41 then 199 else if x = 0x42 then 1 else 0)"
  by (simp add: skewedPayload_def count_list_replicate)

lemma byte_of_nat_eq: "i < 256 \<Longrightarrow> j < 256 \<Longrightarrow> ((of_nat i :: byte) = of_nat j) = (i = j)"
  by (simp add: word_of_nat_eq_iff take_bit_nat_eq_self)

lemma sum_list_map_zero: "(\<And>x. x \<in> set xs \<Longrightarrow> f x = 0) \<Longrightarrow> sum_list (map f xs) = (0::real)"
  by (induction xs) auto

lemma log2_half: "log 2 (1 / 2) = -1"
  by (simp add: log_divide)

lemma log2_256: "log 2 256 = 8"
proof -
  have "(256::real) = 2 ^ 8" by simp
  then have "log 2 256 = log 2 (2 ^ 8)" by simp
  also have "\<dots> = 8" by (subst log_nat_power) simp_all
  finally show ?thesis .
qed

lemma entropy_skewedPayload: "calculateEntropy skewedPayload < 7.5"
proof -
  let ?h = "\<lambda>i. entropyStep skewedPayload 0 i * (-1)"
  have len: "length skewedPayload = 200" by (simp add: skewedPayload_def)
  have split: "[0..<256] = [0..<65] @ [65, 66] @ [67..<256]"
    using upt_add_eq_append [of 0 65 191] by (simp add: upt_rec [of 65] upt_rec [of 66])
  have a: "((of_nat i :: byte) = 0x41) = (i = 65)" if "i < 256" for i
    using byte_of_nat_eq [of i 65] that by simp
  have b: "((of_nat i :: byte) = 0x42) = (i = 66)" if "i < 256" for i
    using byte_of_nat_eq [of i 66] that by simp
  have z: "entropyStep skewedPayload 0 i = 0" if "i < 256" "i \<noteq> 65" "i \<noteq> 66" for i
    using that by (simp add: entropyStep_def count_skewedPayload a b)
  have z1: "sum_list (map ?h [0..<65]) = 0"
  proof (rule sum_list_map_zero)
    fix x assume "x \<in> set [0..<65]"
    then have "x < 65" by (simp only: set_upt atLeastLessThan_iff)
    then show "?h x = 0" using z [of x] by simp
  qed
  have z2: "sum_list (map ?h [67..<256]) = 0"
  proof (rule sum_list_map_zero)
    fix x assume "x \<in> set [67..<256]"
    then have "67 \<le> x \<and> x < 256" by (simp only: set_upt atLeastLessThan_iff)
    then show "?h x = 0" using z [of x] by simp
  qed
  have h65: "?h 65 = (199 / 200) * log 2 (199 / 200)"
    using a [of 65] by (simp add: entropyStep_def count_skewedPayload len)
  have h66: "?h 66 = (1 / 200) * log 2 (1 / 200)"
    using a [of 66] b [of 66] by (simp add: entropyStep_def count_skewedPayload len)
  have "calculateEntropy skewedPayload = - sum_list (map ?h [0..<256])"
    by (simp add: calculateEntropy_def len foldl_entropyStep del: upt.simps)
  also have "\<dots> = - (?h 65 + ?h 66)"
    unfolding split using z1 z2 by (simp del: upt.simps)
  finally have e: "calculateEntropy skewedPayload
      = - ((199 / 200) * log 2 (199 / 200) + (1 / 200) * log 2 (1 / 200))"
    by (simp only: h65 h66)
  have l1: "log 2 (199 / 200) \<ge> -1"
  proof -
    have "log 2 (1 / 2) \<le> log 2 (199 / 200)" by (subst log_le_cancel_iff) simp_all
    then show ?thesis by (simp only: log2_half)
  qed
  have l2: "log 2 (1 / 200) \<ge> -8"
  proof -
    have "log 2 (1 / 256) \<le> log 2 (1 / 200)" by (subst log_le_cancel_iff) simp_all
    moreover have "log 2 (1 / 256) = - 8" by (simp add: log_divide log2_256)
    ultimately show ?thesis by simp
  qed
  have "(199 / 200) * log 2 (199 / 200) \<ge> (199 / 200) * (-1)"
    using l1 by (intro mult_left_mono) simp_all
  moreover have "(1 / 200) * log 2 (1 / 200) \<ge> (1 / 200) * (-8 :: real)"
    using l2 by (intro mult_left_mono) simp_all
  ultimately show ?thesis unfolding e by simp
qed


section \<open>Properties of validate and decrementTTL\<close>

lemma decrementAll_ttls:
  "0 \<le> ttl p \<Longrightarrow> map ttl (decrementAll p) = rev (map int [0..<nat (ttl p)])"
proof (induction p rule: decrementAll.induct)
  case (1 p)
  show ?case
  proof (cases "ttl p = 0")
    case True
    then show ?thesis by (simp add: decrementAll.simps [of p] decrementTTL_def)
  next
    case False
    with "1.prems" have pos: "0 < ttl p" by simp
    let ?q = "p\<lparr>ttl := ttl p - 1\<rparr>"
    have dq: "decrementTTL p = Some ?q" using pos by (simp add: decrementTTL_def)
    have ih: "map ttl (decrementAll ?q) = rev (map int [0..<nat (ttl ?q)])"
      using "1.IH" [OF dq] pos by simp
    have n: "nat (ttl p) = Suc (nat (ttl p - 1))" using pos by simp
    have "map ttl (decrementAll p) = (ttl p - 1) # map ttl (decrementAll ?q)"
      by (simp add: decrementAll.simps [of p] dq)
    also have "\<dots> = (ttl p - 1) # rev (map int [0..<nat (ttl p - 1)])"
      using ih by simp
    also have "\<dots> = rev (map int [0..<Suc (nat (ttl p - 1))])"
      using pos by simp
    also have "\<dots> = rev (map int [0..<nat (ttl p)])"
      using n by simp
    finally show ?thesis .
  qed
qed

lemma decrementAll_last:
  "0 \<le> ttl p \<Longrightarrow> decrementTTL (last (p # decrementAll p)) = None"
proof (induction p rule: decrementAll.induct)
  case (1 p)
  show ?case
  proof (cases "ttl p = 0")
    case True
    then show ?thesis by (simp add: decrementAll.simps [of p] decrementTTL_def)
  next
    case False
    with "1.prems" have pos: "0 < ttl p" by simp
    let ?q = "p\<lparr>ttl := ttl p - 1\<rparr>"
    have dq: "decrementTTL p = Some ?q" using pos by (simp add: decrementTTL_def)
    have "decrementTTL (last (?q # decrementAll ?q)) = None"
      using "1.IH" [OF dq] pos by simp
    then show ?thesis by (simp add: decrementAll.simps [of p] dq)
  qed
qed

text \<open>
  C7.  \<open>validate\<close> accepts a packet exactly when: its version is the protocol VERSION,
  its ttl lies between 0 and MAX_TTL (7), its senderID is non-empty and at most 8 bytes,
  its recipientID, when present, is at most 8 bytes, its payload is at most
  MAX_PAYLOAD_SIZE (4096) bytes, its signature, when present, is exactly 64 bytes, and its
  timestamp is not more than 5 minutes (300000 ms) later than the current time.
\<close>

theorem validate_iff:
  "validate now p \<longleftrightarrow>
     version p = VERSION \<and> 0 \<le> ttl p \<and> ttl p \<le> 7 \<and>
     senderID p \<noteq> [] \<and> length (senderID p) \<le> 8 \<and>
     (\<forall>r. recipientID p = Some r \<longrightarrow> length r \<le> 8) \<and>
     length (payload p) \<le> 4096 \<and>
     (\<forall>s. signature p = Some s \<longrightarrow> length s = 64) \<and>
     timestamp p \<le> now + 5 * 60 * 1000"
  by (auto simp: validate_def MAX_TTL_def SENDER_ID_SIZE_def RECIPIENT_ID_SIZE_def
      MAX_PAYLOAD_SIZE_def SIGNATURE_SIZE_def split: option.splits)

theorem validate_iff_witness:
  "validate 1700000000000 samplePacket \<and>
   validate 1700000000000
     (samplePacket\<lparr>recipientID := Some (replicate 8 0xBB), signature := Some (replicate 64 1)\<rparr>) \<and>
   \<not> validate 1700000000000 (samplePacket\<lparr>recipientID := Some (replicate 9 0)\<rparr>)"
  using validate_iff [of 1700000000000 samplePacket]
    validate_iff [of 1700000000000
      "samplePacket\<lparr>recipientID := Some (replicate 8 0xBB), signature := Some (replicate 64 1)\<rparr>"]
    validate_iff [of 1700000000000 "samplePacket\<lparr>recipientID := Some (replicate 9 0)\<rparr>"]
  by (simp add: samplePacket_def VERSION_def)

text \<open>
  C8.  For a packet whose ttl is k with 0 \<le> k \<le> MAX_TTL, applying \<open>decrementTTL\<close>
  repeatedly returns exactly k packets, with ttl values k-1 down to 0, and then returns
  nothing; and \<open>decrementTTL\<close> returns nothing exactly when the ttl is 0.
\<close>

theorem decrementTTL_chain:
  assumes "0 \<le> ttl p" and "ttl p \<le> MAX_TTL"
  shows "length (decrementAll p) = nat (ttl p) \<and>
         map ttl (decrementAll p) = rev (map int [0..<nat (ttl p)]) \<and>
         decrementTTL (last (p # decrementAll p)) = None \<and>
         (decrementTTL p = None \<longleftrightarrow> ttl p = 0)"
proof -
  have ttls: "map ttl (decrementAll p) = rev (map int [0..<nat (ttl p)])"
    using assms(1) by (rule decrementAll_ttls)
  have "length (decrementAll p) = length (map ttl (decrementAll p))" by simp
  also have "\<dots> = nat (ttl p)" by (simp only: ttls) simp
  finally have len: "length (decrementAll p) = nat (ttl p)" .
  have lst: "decrementTTL (last (p # decrementAll p)) = None"
    using assms(1) by (rule decrementAll_last)
  have none: "decrementTTL p = None \<longleftrightarrow> ttl p = 0"
    using assms(1) by (auto simp: decrementTTL_def)
  from len ttls lst none show ?thesis by blast
qed

theorem decrementTTL_chain_witness:
  "0 \<le> ttl samplePacket \<and> ttl samplePacket \<le> MAX_TTL \<and>
   length (decrementAll samplePacket) = 3 \<and>
   map ttl (decrementAll samplePacket) = [2, 1, 0] \<and>
   decrementTTL samplePacket \<noteq> None"
proof -
  have a: "0 \<le> ttl samplePacket" by (simp add: samplePacket_def)
  have b: "ttl samplePacket \<le> MAX_TTL" by (simp add: samplePacket_def MAX_TTL_def)
  have n: "nat (ttl samplePacket) = 3" by (simp add: samplePacket_def)
  have u: "[0..<3] = [0, 1, 2]" by (simp add: upt_rec)
  show ?thesis
    using decrementTTL_chain [OF a b] a b
    by (simp add: n u) (simp add: samplePacket_def)
qed

section \<open>Round trip through encode and decode\<close>

lemma encode_Some: "\<exists>data. encode p = Some data"
  by (simp add: encode_def Let_def)

lemma validate_fields:
  assumes "validate now p"
  shows "version p = 2" and "0 \<le> ttl p" and "ttl p \<le> 7"
    and "senderID p \<noteq> []" and "length (senderID p) \<le> 8"
    and "\<And>r. recipientID p = Some r \<Longrightarrow> length r \<le> 8"
    and "length (payload p) \<le> 4096"
    and "\<And>s. signature p = Some s \<Longrightarrow> length s = 64"
    and "timestamp p \<le> now + 300000"
  using assms
  by (auto simp: validate_def VERSION_def MAX_TTL_def SENDER_ID_SIZE_def RECIPIENT_ID_SIZE_def
      MAX_PAYLOAD_SIZE_def SIGNATURE_SIZE_def split: if_splits option.splits)

lemma fixedWidth_exact: "length bs = n \<Longrightarrow> fixedWidth n bs = bs"
  by (simp add: fixedWidth_def)

text \<open>
  C1 (as amended).  For every packet that \<open>validate\<close> accepts, whose type is a byte value
  and whose timestamp is a non-negative integer below 2^53, \<open>encode\<close> returns bytes that
  \<open>decode\<close> turns back into a packet with the same version, type, ttl, timestamp and
  signature, with senderID and recipientID trimmed of trailing zero bytes, and with the
  flags read from the wire: hasRecipient and hasSignature say whether the field is present,
  isCompressed says whether \<open>encode\<close> compressed the payload, isBSVRelated is kept.  When
  \<open>encode\<close> did not compress the payload, the payload is returned unchanged.
\<close>

theorem roundtrip_amended:
  assumes "validate now p"
    and "0 \<le> msgType p" and "msgType p < 256"
    and "0 \<le> timestamp p" and "timestamp p < 2 ^ 53"
  shows "\<exists>data q. encode p = Some data \<and> decode data = Some q \<and>
      version q = version p \<and> msgType q = msgType p \<and> ttl q = ttl p \<and>
      timestamp q = timestamp p \<and>
      senderID q = trimNullBytes (senderID p) \<and>
      recipientID q = map_option trimNullBytes (recipientID p) \<and>
      signature q = signature p \<and>
      flags q = \<lparr> hasRecipient = (recipientID p \<noteq> None),
                   hasSignature = (signature p \<noteq> None),
                   isCompressed = (compressPayload (payload p) \<noteq> None),
                   isBSVRelated = isBSVRelated (flags p) \<rparr> \<and>
      (compressPayload (payload p) = None \<longrightarrow> payload q = payload p)"
proof -
  note v = validate_fields [OF assms(1)]
  obtain data where enc: "encode p = Some data" using encode_Some by blast
  have ts: "timestamp p < 2 ^ 64" using assms(5) by simp
  have pl: "length (payload p) < 65534" using v(7) by simp
  note de = decode_encode [OF assms(4) ts pl]
  have s: "trimNullBytes (fixedWidth 8 (senderID p)) = trimNullBytes (senderID p)"
    using v(5) by (rule trimNullBytes_fixedWidth)
  have r: "map_option (\<lambda>r. trimNullBytes (fixedWidth 8 r)) (recipientID p)
         = map_option trimNullBytes (recipientID p)"
    using v(6) by (cases "recipientID p") (simp_all add: trimNullBytes_fixedWidth)
  have g: "map_option (fixedWidth 64) (signature p) = signature p"
    using v(8) by (cases "signature p") (simp_all add: fixedWidth_exact)
  show ?thesis
    using de enc v(1,2,3) assms(2,3) s r g
    by (auto split: option.splits)
qed

lemma compressPayload_short: "length pl < 128 \<Longrightarrow> compressPayload pl = None"
  by (simp add: compressPayload_def shouldCompress_def COMPRESSION_THRESHOLD_def)

lemma replicate_4: "replicate 4 x = [x, x, x, x]"
  by (simp add: numeral_eq_Suc)

lemma encode_samplePacket: "encode samplePacket = Some sampleWire"
proof -
  have c: "compressPayload (payload samplePacket) = None"
    by (rule compressPayload_short) (simp add: samplePacket_def)
  have l: "length (payload samplePacket) = 5" by (simp add: samplePacket_def)
  have r: "rev [0..<8] = [7, 6, 5, 4, 3, 2, 1, 0]" by (simp add: upt_rec)
  have "encode samplePacket = Some
        ([word_of_int (version samplePacket), word_of_int (msgType samplePacket),
          word_of_int (ttl samplePacket)]
         @ timestampBytes (timestamp samplePacket)
         @ [flagsByte samplePacket False]
         @ [0, 5]
         @ fixedWidth SENDER_ID_SIZE (senderID samplePacket)
         @ payload samplePacket)"
    by (simp add: encode_def Let_def c l) (simp add: samplePacket_def)
  also have "\<dots> = Some sampleWire"
    by (simp add: samplePacket_def sampleWire_def timestampBytes_def r flagsByte_def
        fixedWidth_def SENDER_ID_SIZE_def replicate_4)
  finally show ?thesis .
qed

lemma trimNullBytes_sample: "trimNullBytes [0x70, 0x65, 0x65, 0x72] = [0x70, 0x65, 0x65, 0x72]"
  by (simp add: trimNullBytes_eq)

lemma validate_samplePacket: "validate 1700000000000 samplePacket"
  by (simp add: validate_def samplePacket_def VERSION_def MAX_TTL_def SENDER_ID_SIZE_def
      MAX_PAYLOAD_SIZE_def)

theorem roundtrip_amended_witness:
  "validate 1700000000000 samplePacket \<and> compressPayload (payload samplePacket) = None \<and>
   encode samplePacket = Some sampleWire \<and> decode sampleWire = Some samplePacket"
proof -
  have c: "compressPayload (payload samplePacket) = None"
    by (rule compressPayload_short) (simp add: samplePacket_def)
  have "0 \<le> msgType samplePacket" "msgType samplePacket < 256"
    "0 \<le> timestamp samplePacket" "timestamp samplePacket < 2 ^ 53"
    by (simp_all add: samplePacket_def)
  from roundtrip_amended [OF validate_samplePacket this]
  obtain q where q: "decode sampleWire = Some q" "version q = version samplePacket"
    "msgType q = msgType samplePacket" "ttl q = ttl samplePacket"
    "timestamp q = timestamp samplePacket"
    "senderID q = trimNullBytes (senderID samplePacket)"
    "recipientID q = map_option trimNullBytes (recipientID samplePacket)"
    "signature q = signature samplePacket"
    "flags q = \<lparr> hasRecipient = (recipientID samplePacket \<noteq> None),
                   hasSignature = (signature samplePacket \<noteq> None),
                   isCompressed = (compressPayload (payload samplePacket) \<noteq> None),
                   isBSVRelated = isBSVRelated (flags samplePacket) \<rparr>"
    "payload q = payload samplePacket"
    using c by (auto simp: encode_samplePacket)
  have "q = samplePacket"
    using q(2-) c by (cases q) (simp add: samplePacket_def trimNullBytes_sample)
  then show ?thesis using validate_samplePacket c encode_samplePacket q(1) by simp
qed

lemma compressPayload_constant: "compressPayload constantPayload = Some [0x41, 0xFF, 0x41, 200]"
  by (simp add: compressPayload_def constantPayload_def shouldCompress_200 compress_200)

text \<open>
  C1 fails as stated: a valid packet with a payload of 200 equal bytes and all flags unset,
  as the engine builds its packets, is compressed by \<open>encode\<close>; \<open>decode\<close> returns
  it with \<open>isCompressed\<close> set, which is not the packet that went in.
\<close>

theorem roundtrip_counterexample:
  "validate 1700000000000 constantPacket \<and>
   length (payload constantPacket) \<le> MAX_PAYLOAD_SIZE \<and>
   decode (the (encode constantPacket))
     = Some (constantPacket\<lparr>flags := (flags constantPacket)\<lparr>isCompressed := True\<rparr>\<rparr>) \<and>
   decode (the (encode constantPacket))
     \<noteq> Some (constantPacket\<lparr>senderID := trimNullBytes (senderID constantPacket),
           recipientID := map_option trimNullBytes (recipientID constantPacket)\<rparr>)"
proof -
  have v: "validate 1700000000000 constantPacket"
    by (simp add: validate_def constantPacket_def constantPayload_def samplePacket_def
        VERSION_def MAX_TTL_def SENDER_ID_SIZE_def MAX_PAYLOAD_SIZE_def)
  have l: "length (payload constantPacket) \<le> MAX_PAYLOAD_SIZE"
    by (simp add: constantPacket_def constantPayload_def MAX_PAYLOAD_SIZE_def)
  have c: "compressPayload (payload constantPacket) = Some [0x41, 0xFF, 0x41, 200]"
    by (simp add: constantPacket_def compressPayload_constant)
  have "0 \<le> timestamp constantPacket" "timestamp constantPacket < 2 ^ 64"
    "length (payload constantPacket) < 65534"
    by (simp_all add: constantPacket_def constantPayload_def samplePacket_def)
  note d0 = decode_encode [OF this]
  have s: "trimNullBytes (fixedWidth 8 (senderID constantPacket)) = senderID constantPacket"
    by (simp add: trimNullBytes_fixedWidth trimNullBytes_sample constantPacket_def
        samplePacket_def)
  have pl: "decompressLoop [0x41, 0xFF, 0x41, 200] (length (payload constantPacket))
      = payload constantPacket"
  proof -
    have "length (payload constantPacket) = 200"
      by (simp add: constantPacket_def constantPayload_def)
    then show ?thesis
      by (simp only: decompress_200) (simp add: constantPacket_def constantPayload_def)
  qed
  have d: "decode (the (encode constantPacket))
     = Some (constantPacket\<lparr>flags := (flags constantPacket)\<lparr>isCompressed := True\<rparr>\<rparr>)"
    using d0 by (simp add: c s pl del: decompressLoop.simps)
      (simp add: constantPacket_def samplePacket_def)
  have n: "constantPacket\<lparr>flags := (flags constantPacket)\<lparr>isCompressed := True\<rparr>\<rparr>
      \<noteq> constantPacket\<lparr>senderID := trimNullBytes (senderID constantPacket),
           recipientID := map_option trimNullBytes (recipientID constantPacket)\<rparr>"
    by (simp add: constantPacket_def samplePacket_def)
  show ?thesis using v l d n by simp
qed


section \<open>Length check of decode\<close>








section \<open>Flag bits of encode; compress and decompress\<close>

lemma encode_layout:
  "the (encode p) =
     word_of_int (version p) # word_of_int (msgType p) # word_of_int (ttl p)
     # timestampBytes (timestamp p)
     @ flagsByte p (compressPayload (payload p) \<noteq> None)
     # of_nat (drop_bit 8 (length (case compressPayload (payload p) of None \<Rightarrow> payload p | Some c \<Rightarrow> c)
                           + (if compressPayload (payload p) \<noteq> None then 2 else 0)) AND 0xFF)
     # of_nat ((length (case compressPayload (payload p) of None \<Rightarrow> payload p | Some c \<Rightarrow> c)
                           + (if compressPayload (payload p) \<noteq> None then 2 else 0)) AND 0xFF)
     # (fixedWidth SENDER_ID_SIZE (senderID p)
        @ (case recipientID p of None \<Rightarrow> [] | Some r \<Rightarrow> fixedWidth RECIPIENT_ID_SIZE r)
        @ (case compressPayload (payload p) of None \<Rightarrow> payload p | Some c \<Rightarrow> c)
        @ (if compressPayload (payload p) \<noteq> None
            then [of_nat (drop_bit 8 (length (payload p)) AND 0xFF),
                  of_nat (length (payload p) AND 0xFF)]
            else [])
        @ (case signature p of None \<Rightarrow> [] | Some s \<Rightarrow> fixedWidth SIGNATURE_SIZE s))"
  by (simp add: encode_def Let_def)

lemma wireFlags_encode:
  "wireFlags (the (encode p)) = unat (flagsByte p (compressPayload (payload p) \<noteq> None))"
  unfolding wireFlags_def
  by (rule header_layout(4) [OF length_timestampBytes encode_layout])

lemma encode_ignores_flags:
  "encode (p\<lparr>flags := (flags p)\<lparr>hasRecipient := a, hasSignature := b, isCompressed := c\<rparr>\<rparr>)
     = encode p"
  by (simp add: encode_def flagsByte_def Let_def cong: option.case_cong)

text \<open>
  C10.  In the flags byte that \<open>encode\<close> emits, the hasRecipient and hasSignature bits
  are set exactly when recipientID and signature are present, and the isCompressed bit
  exactly when compression succeeded on the payload; the booleans hasRecipient,
  hasSignature and isCompressed of the packet's \<open>flags\<close> are ignored, and the sections
  on the wire are those the flag bits announce.
\<close>

theorem encode_flag_bits:
  "wireHasRecipient (the (encode p)) = (recipientID p \<noteq> None) \<and>
   wireHasSignature (the (encode p)) = (signature p \<noteq> None) \<and>
   wireIsCompressed (the (encode p)) = (compressPayload (payload p) \<noteq> None) \<and>
   encode (p\<lparr>flags := (flags p)\<lparr>hasRecipient := a, hasSignature := b, isCompressed := c\<rparr>\<rparr>)
     = encode p \<and>
   length (the (encode p)) =
     14 + SENDER_ID_SIZE
        + (if wireHasRecipient (the (encode p)) then RECIPIENT_ID_SIZE else 0)
        + length (case compressPayload (payload p) of None \<Rightarrow> payload p | Some z \<Rightarrow> z)
        + (if wireIsCompressed (the (encode p)) then 2 else 0)
        + (if wireHasSignature (the (encode p)) then SIGNATURE_SIZE else 0)"
proof -
  have r: "wireHasRecipient (the (encode p)) = (recipientID p \<noteq> None)"
    by (simp only: wireHasRecipient_def wireFlags_encode flagsByte_bits)
  have s: "wireHasSignature (the (encode p)) = (signature p \<noteq> None)"
    by (simp only: wireHasSignature_def wireFlags_encode flagsByte_bits)
  have k: "wireIsCompressed (the (encode p)) = (compressPayload (payload p) \<noteq> None)"
    by (simp only: wireIsCompressed_def wireFlags_encode flagsByte_bits)
  have l: "length (the (encode p)) =
     14 + SENDER_ID_SIZE
        + (if recipientID p \<noteq> None then RECIPIENT_ID_SIZE else 0)
        + length (case compressPayload (payload p) of None \<Rightarrow> payload p | Some z \<Rightarrow> z)
        + (if compressPayload (payload p) \<noteq> None then 2 else 0)
        + (if signature p \<noteq> None then SIGNATURE_SIZE else 0)"
    by (simp add: header_layout(8) [OF length_timestampBytes encode_layout] length_fixedWidth
        split: option.splits)
  show ?thesis
    unfolding r s k using l encode_ignores_flags by blast
qed

text \<open>
  C2 does not hold of the code.  \<open>compress\<close> writes the first byte of each run as a
  literal and then the whole run again as an escape, so \<open>decompress\<close> yields each run
  one byte too long and loses the end of the input: for 199 bytes 0x41 followed by 0x42,
  \<open>compress\<close> returns 8 bytes, and \<open>decompress\<close> of them gives 200 bytes 0x41.
\<close>

theorem compress_not_inverted:
  "compress skewedPayload = Some [0x41, 0xFF, 0x41, 199, 0x42, 0xFF, 0x42, 1] \<and>
   decompress [0x41, 0xFF, 0x41, 199, 0x42, 0xFF, 0x42, 1] (length skewedPayload)
     = Some constantPayload \<and>
   constantPayload \<noteq> skewedPayload"
proof -
  have s: "shouldCompress skewedPayload"
    using entropy_skewedPayload
    by (simp add: shouldCompress_def COMPRESSION_THRESHOLD_def skewedPayload_def)
  have c: "compress skewedPayload = Some [0x41, 0xFF, 0x41, 199, 0x42, 0xFF, 0x42, 1]"
    using s compressLoop_199 by (simp add: compress_def skewedPayload_def)
  have l: "length skewedPayload = 200" by (simp add: skewedPayload_def)
  have d: "decompress [0x41, 0xFF, 0x41, 199, 0x42, 0xFF, 0x42, 1] (length skewedPayload)
     = Some constantPayload"
    by (simp only: l decompress_def decompress_199 constantPayload_def)
  have "last constantPayload \<noteq> last skewedPayload"
    by (simp add: constantPayload_def skewedPayload_def)
  then have n: "constantPayload \<noteq> skewedPayload" by auto
  show ?thesis using c d n by simp
qed


section \<open>Padding\<close>

text \<open>
  C3 does not hold of the code.  \<open>pad\<close> fills the padding with random bytes and
  writes the padding length into the last byte only, while \<open>unpad\<close> removes padding
  only when every padding byte equals the padding length.  With one byte of data, target
  size 3 and a random filler byte 0x00, \<open>unpad\<close> returns the padded bytes unchanged.
\<close>

theorem unpad_pad_fails:
  "pad (\<lambda>i. 0) [0x41] 3 = [0x41, 0x00, 0x02] \<and>
   unpad [0x41, 0x00, 0x02] = [0x41, 0x00, 0x02] \<and>
   unpad (pad (\<lambda>i. 0) [0x41] 3) \<noteq> [0x41]"
proof -
  have p: "pad (\<lambda>i. 0) [0x41] 3 = [0x41, 0x00, 0x02]"
    by (simp add: pad_def MAX_PADDING_def getRandomBytes_def upt_rec Let_def)
  have u: "unpad [0x41, 0x00, 0x02] = [0x41, 0x00, 0x02]"
    by (simp add: unpad_def MAX_PADDING_def isValidPKCS7Padding_def Let_def)
  show ?thesis by (simp add: p u)
qed

section \<open>Stopping the engine\<close>

lemma other_disconnect_fold:
  "foldl (\<lambda>s peerId. disconnectFromDevice peerId s) st ks
     = st\<lparr>effects := effects st @ map Disconnected ks\<rparr>"
  by (induction ks arbitrary: st) (simp_all add: disconnectFromDevice_def)

text \<open>
  C9 (as amended).  After \<open>stopServices\<close> the engine neither scans nor advertises, a
  disconnect has been attempted for every peer of the table, in order, and the table is
  empty; when the engine was scanning, the duty-cycle scan timer is cancelled.  The
  stale-peer cleanup timer and the cover-traffic timer are left as they were: every timer
  other than the duty-cycle scan timer stays pending.
\<close>

theorem stopServices_effect:
  "isScanning (stopServices st) = False \<and>
   isAdvertising (stopServices st) = False \<and>
   connectedPeers (stopServices st) = [] \<and>
   effects (stopServices st) = effects st @ map Disconnected (map fst (connectedPeers st)) \<and>
   (isScanning st \<longrightarrow>
      scanDutyCycleTimer (stopServices st) = None \<and>
      (\<forall>h. scanDutyCycleTimer st = Some h \<longrightarrow> h \<notin> fst ` set (timers (stopServices st)))) \<and>
   peerCleanupTimer (stopServices st) = peerCleanupTimer st \<and>
   coverTrafficTimer (stopServices st) = coverTrafficTimer st \<and>
   (\<forall>h task. (h, task) \<in> set (timers st) \<and> scanDutyCycleTimer st \<noteq> Some h
      \<longrightarrow> (h, task) \<in> set (timers (stopServices st)))"
  by (auto simp: stopServices_def disconnectAllPeers_def other_disconnect_fold
      stopAdvertising_def stopScanning_def clearTimer_def Let_def split: option.splits)

lemma startedEngine_eq:
  "startedEngine =
     \<lparr> delegate = True, isInitialized = True, isScanning = True, isAdvertising = True,
       connectedPeers = [], processedMessages = {},
       scanDutyCycleTimer = None, peerCleanupTimer = Some 1, coverTrafficTimer = Some 2,
       scanInterval = 10000, scanPause = 2000, mode = balanced, maxConnections = 8,
       timers = [(1, PeerCleanup), (2, CoverTraffic), (3, DeviceDiscovery)], nextTimer = 4,
       effects = [] \<rparr>"
  by (simp add: startedEngine_def startScanning_def startAdvertising_def initialize_def
      newEngine_def startPeriodicTasks_def setTimer_def updateScanParameters_def Let_def)

lemma startServices_new: "startServices (initialize newEngine) = Inr startedEngine"
  by (simp add: startServices_def startedEngine_def initialize_def)

text \<open>
  C9 fails as stated: on a new engine that has been initialised and started,
  \<open>stopServices\<close> leaves the cleanup timer and the cover-traffic timer pending.
\<close>

theorem stopServices_counterexample:
  "startServices (initialize newEngine) = Inr startedEngine \<and>
   peerCleanupTimer (stopServices startedEngine) = Some 1 \<and>
   (1, PeerCleanup) \<in> set (timers (stopServices startedEngine)) \<and>
   coverTrafficTimer (stopServices startedEngine) = Some 2 \<and>
   (2, CoverTraffic) \<in> set (timers (stopServices startedEngine))"
  by (simp add: startServices_new)
     (simp add: startedEngine_eq stopServices_def disconnectAllPeers_def stopAdvertising_def
        stopScanning_def)

theorem stopServices_effect_witness:
  "isScanning meshEngine \<and>
   scanDutyCycleTimer (stopServices meshEngine) = None \<and>
   effects (stopServices meshEngine) = [Disconnected ''A'', Disconnected ''B'', Disconnected ''C''] \<and>
   (1, PeerCleanup) \<in> set (timers meshEngine) \<and> scanDutyCycleTimer meshEngine \<noteq> Some 1 \<and>
   (1, PeerCleanup) \<in> set (timers (stopServices meshEngine)) \<and>
   scanDutyCycleTimer (meshEngine\<lparr>scanDutyCycleTimer := Some 3\<rparr>) = Some 3 \<and>
   3 \<notin> fst ` set (timers (stopServices (meshEngine\<lparr>scanDutyCycleTimer := Some 3\<rparr>)))"
  using stopServices_effect [of meshEngine]
    stopServices_effect [of "meshEngine\<lparr>scanDutyCycleTimer := Some 3\<rparr>"]
  by (simp add: meshEngine_def startedEngine_eq)

section \<open>Admission of inbound packets: deduplication and relay\<close>






















end
